theory Spec2Isabelle
  imports Complex_Main "HOL-Library.Finite_Map" "HOL-Library.Sublist"
begin

section \<open>JavaScript values\<close>

text \<open>
  The values that \<open>addSchema\<close> of \<open>src/typed-fastify.ts\<close> receives in its options (the schema
  table, the security map, the service declaration) and in the route configuration of the
  \<open>onRoute\<close> hook are typed \<open>any\<close>, so they are modelled by one type of JavaScript values.
  An object is the finite map of its own enumerable string-keyed properties (the order of the
  properties is not part of the model); a function is known by an identifier only; a number is
  a real, with \<open>NaN\<close> apart, since the code does nothing with a number but test its truthiness.
  Strings are lists of 8-bit characters.
\<close>

datatype jsval =
    JUndefined
  | JNull
  | JBool bool
  | JNum real
  | JNaN
  | JStr string
  | JFun nat
  | JArr "jsval list"
  | JObj "(string, jsval) fmap"

datatype jstype = TUndefined | TObject | TBoolean | TNumber | TString | TFunction

text \<open>\<open>throw Error(msg)\<close> carries its message; a \<open>TypeError\<close> is raised by the engine, with a
  message that depends on the engine.\<close>

datatype error = Error string | TypeError

fun typeof :: "jsval \<Rightarrow> jstype" where
  "typeof JUndefined = TUndefined"
| "typeof JNull = TObject"
| "typeof (JBool b) = TBoolean"
| "typeof (JNum r) = TNumber"
| "typeof JNaN = TNumber"
| "typeof (JStr s) = TString"
| "typeof (JFun f) = TFunction"
| "typeof (JArr xs) = TObject"
| "typeof (JObj m) = TObject"

text \<open>What \<open>if (v)\<close>, \<open>!v\<close>, \<open>v && w\<close> and \<open>v || w\<close> test.\<close>

fun truthy :: "jsval \<Rightarrow> bool" where
  "truthy JUndefined = False"
| "truthy JNull = False"
| "truthy (JBool b) = b"
| "truthy (JNum r) = (r \<noteq> 0)"
| "truthy JNaN = False"
| "truthy (JStr s) = (s \<noteq> [])"
| "truthy (JFun f) = True"
| "truthy (JArr xs) = True"
| "truthy (JObj m) = True"

definition js_and :: "jsval \<Rightarrow> jsval \<Rightarrow> jsval" where
  "js_and v w = (if truthy v then w else v)"

definition js_or :: "jsval \<Rightarrow> jsval \<Rightarrow> jsval" where
  "js_or v w = (if truthy v then v else w)"

fun nullish :: "jsval \<Rightarrow> bool" where
  "nullish JUndefined = True"
| "nullish JNull = True"
| "nullish v = False"

text \<open>\<open>v ?? w\<close>\<close>

definition js_coalesce :: "jsval \<Rightarrow> jsval \<Rightarrow> jsval" where
  "js_coalesce v w = (if nullish v then w else v)"

text \<open>The decimal numeral of an array index, as a property key.\<close>

fun show_nat :: "nat \<Rightarrow> string" where
  "show_nat n =
     (if n < 10 then [''0123456789'' ! n]
      else show_nat (n div 10) @ [''0123456789'' ! (n mod 10)])"

declare show_nat.simps [simp del]

text \<open>
  The properties that an object spread \<open>{...v}\<close> copies: the own enumerable properties of
  \<open>v\<close>. A spread of \<open>undefined\<close>, \<open>null\<close>, a boolean, a number or a function copies nothing; an
  array and a string are spread by index.
\<close>

fun own_props :: "jsval \<Rightarrow> (string, jsval) fmap" where
  "own_props (JObj m) = m"
| "own_props (JArr xs) = fmap_of_list (zip (map show_nat [0..<length xs]) xs)"
| "own_props (JStr s) =
     fmap_of_list (zip (map show_nat [0..<length s]) (map (\<lambda>c. JStr [c]) s))"
| "own_props v = fmempty"

text \<open>
  Reading a property \<open>v[k]\<close> of a value that is neither \<open>undefined\<close> nor \<open>null\<close>. Arrays and
  strings have \<open>length\<close> besides their indices. Properties inherited from the prototypes are
  left out: the code reads only the keys \<open>$id\<close>, \<open>request\<close>, \<open>properties\<close>, \<open>response\<close>,
  \<open>handler\<close> and route keys (which contain a space), none of which a prototype defines.
\<close>

definition read_prop :: "jsval \<Rightarrow> string \<Rightarrow> jsval" where
  "read_prop v k =
     (case fmlookup (own_props v) k of
        Some x \<Rightarrow> x
      | None \<Rightarrow>
          (case v of
             JArr xs \<Rightarrow> if k = ''length'' then JNum (real (length xs)) else JUndefined
           | JStr s \<Rightarrow> if k = ''length'' then JNum (real (length s)) else JUndefined
           | _ \<Rightarrow> JUndefined))"

text \<open>\<open>v.k\<close>: a \<open>TypeError\<close> on \<open>undefined\<close> and \<open>null\<close>.\<close>

definition get_prop :: "jsval \<Rightarrow> string \<Rightarrow> error + jsval" where
  "get_prop v k = (if nullish v then Inl TypeError else Inr (read_prop v k))"

text \<open>\<open>v?.k\<close>: \<open>undefined\<close> on \<open>undefined\<close> and \<open>null\<close>.\<close>

definition opt_get :: "jsval \<Rightarrow> string \<Rightarrow> jsval" where
  "opt_get v k = (if nullish v then JUndefined else read_prop v k)"

text \<open>\<open>r[k]\<close> on a \<open>Record<string, any>\<close>.\<close>

definition rec_get :: "(string, jsval) fmap \<Rightarrow> string \<Rightarrow> jsval" where
  "rec_get r k = (case fmlookup r k of Some v \<Rightarrow> v | None \<Rightarrow> JUndefined)"

section \<open>The options of \<open>addSchema\<close>\<close>

text \<open>
  \<open>opts.jsonSchema.schema\<close>, \<open>opts.jsonSchema.fastify\<close> (the schema table),
  \<open>opts.swaggerSecurityMap\<close> (optional) and \<open>opts.service\<close>. The service declaration is the
  sequence of properties that \<open>for (const path in opts.service)\<close> enumerates: the key, whether
  the property is an own property of the declaration, and its value.
\<close>

datatype entry = Entry (ekey: string) (eown: bool) (evalue: jsval)

record opts =
  jsonSchema_schema :: jsval
  jsonSchema_fastify :: "(string, jsval) fmap"
  swaggerSecurityMap :: "(string, jsval) fmap option"
  service :: "entry list"

section \<open>Route schema resolution: the \<open>onRoute\<close> hook\<close>

text \<open>
  The route configuration handed to the hook. The fields are those the hook reads or writes;
  the record is extensible, and the hook leaves every other field as it is. \<open>cfg_method\<close> is
  \<open>config.method\<close> as the template literal renders it.
\<close>

record config =
  cfg_prefix :: string
  cfg_method :: string
  cfg_routePath :: string
  cfg_schema :: jsval

text \<open>
  The fragment looked up for a route (lines 50 to 58): the table entry under
  \<open>"<method> <routePath>"\<close>, and when that is falsy and the route path is \<open>""\<close> or \<open>"/"\<close>,
  the entry under \<open>"<method> /"\<close>.
\<close>

definition maybeSchema :: "(string, jsval) fmap \<Rightarrow> string \<Rightarrow> string \<Rightarrow> jsval" where
  "maybeSchema fastifySchema method routePath =
     (let key = method @ '' '' @ routePath;
          m = rec_get fastifySchema key;
          m = (if \<not> truthy m \<and> routePath = '''' then rec_get fastifySchema (method @ '' /'') else m);
          m = (if \<not> truthy m \<and> routePath = ''/'' then rec_get fastifySchema (method @ '' /'') else m)
      in m)"

text \<open>
  The value spread for the security metadata (lines 64 to 67):
  \<open>opts?.swaggerSecurityMap && opts.swaggerSecurityMap[key] && { security: opts.swaggerSecurityMap[key] }\<close>.
\<close>

definition securitySpread :: "(string, jsval) fmap option \<Rightarrow> string \<Rightarrow> jsval" where
  "securitySpread sm key =
     (case sm of
        None \<Rightarrow> JUndefined
      | Some m \<Rightarrow> js_and (rec_get m key) (JObj (fmupd ''security'' (rec_get m key) fmempty)))"

text \<open>The hook itself (lines 47 to 74); \<open>fastify_prefix\<close> is \<open>fastify.prefix\<close>.\<close>

definition onRoute :: "string \<Rightarrow> 'a opts_scheme \<Rightarrow> 'b config_scheme \<Rightarrow> 'b config_scheme" where
  "onRoute fastify_prefix opts config =
     (if cfg_prefix config \<noteq> fastify_prefix then config
      else
        let key = cfg_method config @ '' '' @ cfg_routePath config;
            m = maybeSchema (jsonSchema_fastify opts) (cfg_method config) (cfg_routePath config);
            config = config\<lparr>cfg_schema := js_or (cfg_schema config) (JObj fmempty)\<rparr>
        in if truthy m then
             config\<lparr>cfg_schema := JObj
               (own_props (js_coalesce (cfg_schema config) (JObj fmempty))
                ++\<^sub>f own_props (securitySpread (swaggerSecurityMap opts) key)
                ++\<^sub>f own_props (opt_get (opt_get m ''request'') ''properties'')
                ++\<^sub>f own_props (js_and (read_prop m ''response'')
                     (JObj (fmupd ''response'' (read_prop m ''response'') fmempty))))\<rparr>
           else config)"

section \<open>Route registration: the service loop\<close>

text \<open>\<open>s.split(sep)\<close> for a one-character separator, and \<open>a.join(sep)\<close> on an array of strings.\<close>

fun split_str :: "char \<Rightarrow> string \<Rightarrow> string list" where
  "split_str sep [] = [[]]"
| "split_str sep (c # cs) =
     (if c = sep then [] # split_str sep cs
      else (case split_str sep cs of
              [] \<Rightarrow> [[c]]
            | w # ws \<Rightarrow> (c # w) # ws))"

fun join_str :: "char \<Rightarrow> string list \<Rightarrow> string" where
  "join_str sep [] = []"
| "join_str sep [w] = w"
| "join_str sep (w # v # ws) = w @ sep # join_str sep (v # ws)"

text \<open>
  \<open>toUpperCase\<close>: the letters \<open>a\<close> to \<open>z\<close> become \<open>A\<close> to \<open>Z\<close>, every other 8-bit character
  stays. (The upper-case images that Unicode gives to the 8-bit characters beyond ASCII are
  either not ASCII or the pair \<open>SS\<close>; neither occurs in an HTTP verb, so for these strings
  membership in \<open>httpMethods\<close>, and the method registered, are the same.)
\<close>

definition toUpperChar :: "char \<Rightarrow> char" where
  "toUpperChar c =
     (case map_of (zip ''abcdefghijklmnopqrstuvwxyz'' ''ABCDEFGHIJKLMNOPQRSTUVWXYZ'') c of
        Some u \<Rightarrow> u
      | None \<Rightarrow> c)"

definition toUpperCase :: "string \<Rightarrow> string" where
  "toUpperCase s = map toUpperChar s"

definition httpMethods :: "string set" where
  "httpMethods = {''DELETE'', ''GET'', ''HEAD'', ''PATCH'', ''POST'', ''PUT'', ''OPTIONS''}"

text \<open>The message of the error thrown for an unknown method (line 82); \<open>method\<close> is the
  token as the template literal renders it.\<close>

definition wrongConfiguration :: "string \<Rightarrow> string \<Rightarrow> string" where
  "wrongConfiguration path method =
     ''Wrong configuration for '' @ path @ '', method ['' @ method @ ''] is unknown HTTP method''"

text \<open>
  The body of the loop for one own property (lines 78 to 106): either an error is thrown, or
  \<open>fastify.route\<close> is called with the returned route options. In the \<open>object\<close> branch the
  object literal is evaluated before the call: the spread, then \<open>handler.handler\<close>, which
  throws on \<open>null\<close>.
\<close>

definition registerEntry :: "string \<Rightarrow> jsval \<Rightarrow> error + (string, jsval) fmap" where
  "registerEntry path handler =
     (case split_str CHR '' '' path of
        [] \<Rightarrow> Inl (Error (wrongConfiguration path ''undefined''))
      | method # route \<Rightarrow>
          let httpMethod = toUpperCase method in
          if method = [] \<or> httpMethod \<notin> httpMethods then
            Inl (Error (wrongConfiguration path method))
          else
            (case typeof handler of
               TObject \<Rightarrow>
                 (case get_prop handler ''handler'' of
                    Inl e \<Rightarrow> Inl e
                  | Inr h \<Rightarrow>
                      Inr (fmupd ''url'' (JStr (join_str CHR '' '' route))
                          (fmupd ''method'' (JStr httpMethod)
                          (fmupd ''handler'' h (own_props handler)))))
             | TFunction \<Rightarrow>
                 Inr (fmupd ''url'' (JStr (join_str CHR '' '' route))
                     (fmupd ''handler'' handler
                     (fmupd ''method'' (JStr httpMethod) fmempty)))
             | _ \<Rightarrow> Inl (Error ''Unknown handler'')))"

text \<open>
  The server is outside this program. The model records the calls that \<open>addSchema\<close> makes on
  the \<open>fastify\<close> instance, in the order it makes them, each call returning normally; the
  hooks and decorators are named by the key they are registered under and defined below.
\<close>

datatype call =
    AddSchema jsval
  | DecorateReply string
  | DecorateRequest string jsval
  | AddHook string
  | Route "(string, jsval) fmap"

text \<open>The \<open>for ... in\<close> loop (lines 77 to 107): the calls made so far, and the error thrown, if
  any. A property that is not an own property is skipped.\<close>

fun registerService :: "entry list \<Rightarrow> call list \<Rightarrow> call list \<times> error option" where
  "registerService [] calls = (calls, None)"
| "registerService (e # es) calls =
     (if \<not> eown e then registerService es calls
      else (case registerEntry (ekey e) (evalue e) of
              Inl err \<Rightarrow> (calls, Some err)
            | Inr routeOptions \<Rightarrow> registerService es (calls @ [Route routeOptions])))"

text \<open>The calls that precede the loop (lines 30 to 47).\<close>

definition setupCalls :: "jsval \<Rightarrow> call list" where
  "setupCalls schema =
     [AddSchema schema,
      DecorateReply ''matches'',
      DecorateRequest ''operationPath'' JNull,
      AddHook ''onRequest'',
      DecorateReply ''asReply'',
      AddHook ''onRoute'']"

definition addSchema :: "'a opts_scheme \<Rightarrow> call list \<times> error option" where
  "addSchema opts =
     (let schema = jsonSchema_schema opts in
      if truthy (opt_get schema ''$id'') then registerService (service opts) (setupCalls schema)
      else ([], Some (Error
        ''Schema was ignored, $id is missing; Typed fastify schema was not registered...'')))"

section \<open>The request hook and the reply decorators\<close>

text \<open>The fields of the request that the code reads or writes; \<open>req_url\<close> is the literal URL,
  \<open>req_routerPath\<close> the route template. \<open>decorateRequest('operationPath', null)\<close> makes
  \<open>operationPath\<close> start as \<open>null\<close>.\<close>

record request =
  req_method :: string
  req_routerPath :: string
  req_url :: string
  operationPath :: jsval

record reply =
  reply_request :: request

text \<open>The \<open>onRequest\<close> hook (lines 39 to 42). It ends with \<open>done()\<close>, without an error: \<open>Inr\<close>.\<close>

definition onRequest :: "'a request_scheme \<Rightarrow> error + 'a request_scheme" where
  "onRequest req =
     Inr (req\<lparr>operationPath := JStr (req_method req @ '' '' @ req_routerPath req)\<rparr>)"

text \<open>The decorators \<open>matches\<close> (lines 35 to 37) and \<open>asReply\<close> (lines 43 to 45).\<close>

definition matches :: "'a reply_scheme \<Rightarrow> string \<Rightarrow> bool" where
  "matches this routeWithMethod =
     (req_method (reply_request this) @ '' '' @ req_routerPath (reply_request this)
        = routeWithMethod)"

definition asReply :: "'a reply_scheme \<Rightarrow> 'a reply_scheme" where
  "asReply this = this"

section \<open>Example inputs\<close>

text \<open>A schema table with one fragment, for \<open>GET /\<close>, and a security map with one entry, for
  the same key.\<close>

definition ex_response :: jsval where
  "ex_response =
     JObj (fmupd ''200'' (JObj (fmupd ''type'' (JStr ''string'') fmempty)) fmempty)"

definition ex_querystring :: jsval where
  "ex_querystring = JObj (fmupd ''type'' (JStr ''object'') fmempty)"

definition ex_fragment :: jsval where
  "ex_fragment =
     JObj (fmupd ''request''
             (JObj (fmupd ''properties''
                (JObj (fmupd ''querystring'' ex_querystring fmempty)) fmempty))
          (fmupd ''response'' ex_response fmempty))"

definition ex_security :: jsval where
  "ex_security = JArr [JObj (fmupd ''bearerAuth'' (JArr []) fmempty)]"

definition ex_schema :: jsval where
  "ex_schema = JObj (fmupd ''$id'' (JStr ''api'') fmempty)"

definition ex_opts :: "(string, jsval) fmap option \<Rightarrow> entry list \<Rightarrow> opts" where
  "ex_opts securityMap entries =
     \<lparr> jsonSchema_schema = ex_schema,
       jsonSchema_fastify = fmupd ''GET /'' ex_fragment fmempty,
       swaggerSecurityMap = securityMap,
       service = entries \<rparr>"

text \<open>A table that has a fragment under the key with the empty path as well.\<close>

definition ex_no_content :: jsval where
  "ex_no_content =
     JObj (fmupd ''response''
        (JObj (fmupd ''204'' (JObj (fmupd ''type'' (JStr ''null'') fmempty)) fmempty)) fmempty)"

definition ex_opts_two_roots :: opts where
  "ex_opts_two_roots =
     \<lparr> jsonSchema_schema = ex_schema,
       jsonSchema_fastify = fmupd ''GET '' ex_no_content (fmupd ''GET /'' ex_fragment fmempty),
       swaggerSecurityMap = None,
       service = [] \<rparr>"

definition ex_securityMap :: "(string, jsval) fmap" where
  "ex_securityMap = fmupd ''GET /'' ex_security fmempty"

text \<open>A route of the method \<open>GET\<close> under the prefix \<open>""\<close>, with the route path and the explicit
  schema left open.\<close>

definition ex_config :: "string \<Rightarrow> jsval \<Rightarrow> config" where
  "ex_config routePath explicit =
     \<lparr> cfg_prefix = '''', cfg_method = ''GET'', cfg_routePath = routePath,
       cfg_schema = explicit \<rparr>"

definition ex_explicit :: jsval where
  "ex_explicit =
     JObj (fmupd ''summary'' (JStr ''root'') (fmupd ''response'' (JStr ''explicit'') fmempty))"

definition ex_handler :: jsval where
  "ex_handler = JFun 0"

definition ex_route :: "string \<Rightarrow> string \<Rightarrow> call" where
  "ex_route method url =
     Route (fmupd ''url'' (JStr url)
           (fmupd ''handler'' ex_handler
           (fmupd ''method'' (JStr method) fmempty)))"

definition ex_request :: request where
  "ex_request =
     \<lparr> req_method = ''GET'', req_routerPath = ''/users/:id'', req_url = ''/users/42'',
       operationPath = JNull \<rparr>"

section \<open>Auxiliary facts\<close>

lemmas js_defs =
  js_and_def js_or_def js_coalesce_def opt_get_def get_prop_def read_prop_def rec_get_def

lemmas ex_defs =
  ex_response_def ex_querystring_def ex_fragment_def ex_security_def ex_schema_def ex_opts_def
  ex_securityMap_def ex_config_def ex_explicit_def ex_handler_def ex_route_def ex_request_def
  ex_no_content_def ex_opts_two_roots_def

lemmas upper_defs = toUpperCase_def toUpperChar_def httpMethods_def

lemma own_props_falsy: "\<not> truthy v \<Longrightarrow> own_props v = fmempty"
  by (cases v) auto

lemma securitySpread_lookup:
  "k \<noteq> ''security'' \<Longrightarrow> fmlookup (own_props (securitySpread sm key)) k = None"
  by (auto simp: securitySpread_def js_and_def own_props_falsy split: option.splits)

lemma securitySpread_None: "own_props (securitySpread None key) = fmempty"
  by (simp add: securitySpread_def)

lemma maybeSchema_root:
  "\<not> truthy (rec_get fastifySchema (method @ '' '')) \<Longrightarrow>
     maybeSchema fastifySchema method '''' = maybeSchema fastifySchema method ''/''"
  by (simp add: maybeSchema_def Let_def)

lemma fmdrop_merge:
  assumes "\<And>k. k \<noteq> x \<Longrightarrow> fmlookup s k = fmlookup s' k"
  shows "fmdrop x (e ++\<^sub>f s ++\<^sub>f p ++\<^sub>f r) = fmdrop x (e ++\<^sub>f s' ++\<^sub>f p ++\<^sub>f r)"
proof (rule fmap_ext)
  fix k
  show "fmlookup (fmdrop x (e ++\<^sub>f s ++\<^sub>f p ++\<^sub>f r)) k
      = fmlookup (fmdrop x (e ++\<^sub>f s' ++\<^sub>f p ++\<^sub>f r)) k"
  proof (cases "k = x")
    case True
    then show ?thesis by simp
  next
    case False
    then have "fmlookup s k = fmlookup s' k" by (rule assms)
    moreover have "k |\<in>| fmdom s \<longleftrightarrow> k |\<in>| fmdom s'"
      using calculation by (metis fmdom_notD fmdom_notI)
    ultimately show ?thesis using False by simp
  qed
qed

lemma split_str_not_Nil: "split_str sep s \<noteq> []"
  by (induction s) (auto split: list.splits)

lemma hd_split_str: "hd (split_str sep s) = takeWhile (\<lambda>c. c \<noteq> sep) s"
  using split_str_not_Nil[of sep] by (induction s) (auto split: list.splits)

lemma join_str_Cons:
  "join_str sep (w # ws) = w @ (if ws = [] then [] else sep # join_str sep ws)"
  by (cases ws) auto

lemma join_split_str: "join_str sep (split_str sep s) = s"
  using split_str_not_Nil[of sep]
  by (induction s) (auto simp: join_str_Cons split: list.splits)

lemma join_tl_split_str:
  "join_str sep (tl (split_str sep s)) = drop 1 (dropWhile (\<lambda>c. c \<noteq> sep) s)"
proof (induction s)
  case Nil
  then show ?case by simp
next
  case (Cons c cs)
  show ?case
  proof (cases "c = sep")
    case True
    then show ?thesis by (simp add: join_split_str)
  next
    case False
    then show ?thesis
      using Cons split_str_not_Nil[of sep cs] by (auto split: list.splits)
  qed
qed

text \<open>The destructuring \<open>[method, ...route] = path.split(' ')\<close>: the token before the first
  space, and parts that join to what follows the first space.\<close>

lemma split_str_cases:
  obtains route where "split_str sep s = takeWhile (\<lambda>c. c \<noteq> sep) s # route"
    and "join_str sep route = drop 1 (dropWhile (\<lambda>c. c \<noteq> sep) s)"
proof (cases "split_str sep s")
  case Nil
  then show ?thesis using split_str_not_Nil by blast
next
  case (Cons m route)
  then show ?thesis
    using hd_split_str[of sep s] join_tl_split_str[of sep s] that by simp
qed

lemma key_parts:
  assumes "CHR '' '' \<notin> set m"
  shows "takeWhile (\<lambda>c. c \<noteq> CHR '' '') (m @ '' '' @ rest) = m"
    and "drop 1 (dropWhile (\<lambda>c. c \<noteq> CHR '' '') (m @ '' '' @ rest)) = rest"
proof -
  have a: "\<And>x. x \<in> set m \<Longrightarrow> x \<noteq> CHR '' ''"
    using assms by auto
  show "takeWhile (\<lambda>c. c \<noteq> CHR '' '') (m @ '' '' @ rest) = m"
    using a by (simp add: takeWhile_tail)
  show "drop 1 (dropWhile (\<lambda>c. c \<noteq> CHR '' '') (m @ '' '' @ rest)) = rest"
    using a by (simp add: dropWhile_append2)
qed

lemma registerEntry_unknown:
  assumes "toUpperCase (takeWhile (\<lambda>c. c \<noteq> CHR '' '') path) \<notin> httpMethods"
  shows "registerEntry path handler
       = Inl (Error (wrongConfiguration path (takeWhile (\<lambda>c. c \<noteq> CHR '' '') path)))"
proof -
  obtain route where "split_str CHR '' '' path = takeWhile (\<lambda>c. c \<noteq> CHR '' '') path # route"
    by (rule split_str_cases)
  then show ?thesis using assms by (simp add: registerEntry_def)
qed

lemma registerEntry_known:
  assumes "toUpperCase (takeWhile (\<lambda>c. c \<noteq> CHR '' '') path) \<in> httpMethods"
  shows "registerEntry path handler =
     (case typeof handler of
        TObject \<Rightarrow>
          (case get_prop handler ''handler'' of
             Inl e \<Rightarrow> Inl e
           | Inr h \<Rightarrow>
               Inr (fmupd ''url'' (JStr (drop 1 (dropWhile (\<lambda>c. c \<noteq> CHR '' '') path)))
                   (fmupd ''method'' (JStr (toUpperCase (takeWhile (\<lambda>c. c \<noteq> CHR '' '') path)))
                   (fmupd ''handler'' h (own_props handler)))))
      | TFunction \<Rightarrow>
          Inr (fmupd ''url'' (JStr (drop 1 (dropWhile (\<lambda>c. c \<noteq> CHR '' '') path)))
              (fmupd ''handler'' handler
              (fmupd ''method'' (JStr (toUpperCase (takeWhile (\<lambda>c. c \<noteq> CHR '' '') path)))
                 fmempty)))
      | _ \<Rightarrow> Inl (Error ''Unknown handler''))"
proof -
  obtain route where s: "split_str CHR '' '' path = takeWhile (\<lambda>c. c \<noteq> CHR '' '') path # route"
    and j: "join_str CHR '' '' route = drop 1 (dropWhile (\<lambda>c. c \<noteq> CHR '' '') path)"
    by (rule split_str_cases)
  have "takeWhile (\<lambda>c. c \<noteq> CHR '' '') path \<noteq> []"
    using assms by (auto simp: upper_defs)
  then show ?thesis
    using assms by (simp add: registerEntry_def s j Let_def split: jstype.splits sum.splits)
qed

lemma registerService_append:
  "registerService (xs @ ys) calls =
     (case registerService xs calls of
        (calls', None) \<Rightarrow> registerService ys calls'
      | (calls', Some e) \<Rightarrow> (calls', Some e))"
  by (induction xs arbitrary: calls) (auto split: sum.splits)

lemma registerService_prefix: "prefix calls (fst (registerService es calls))"
proof (induction es arbitrary: calls)
  case Nil
  then show ?case by simp
next
  case (Cons e es)
  show ?case
  proof (cases "registerEntry (ekey e) (evalue e)")
    case (Inl err)
    then show ?thesis using Cons[of calls] by simp
  next
    case (Inr r)
    have "prefix calls (calls @ [Route r])" by simp
    then have "prefix calls (fst (registerService es (calls @ [Route r])))"
      using Cons[of "calls @ [Route r]"] prefix_order.trans by blast
    then show ?thesis using Inr Cons[of calls] by simp
  qed
qed

lemma registerService_ok_calls:
  "registerService es calls = (calls', None) \<Longrightarrow>
     \<exists>rs. calls' = calls @ map Route rs \<and> length rs = length (filter eown es)"
proof (induction es arbitrary: calls)
  case Nil
  then show ?case by simp
next
  case (Cons e es)
  show ?case
  proof (cases "eown e")
    case False
    then show ?thesis using Cons by auto
  next
    case True
    show ?thesis
    proof (cases "registerEntry (ekey e) (evalue e)")
      case (Inl err)
      then show ?thesis using True Cons.prems by simp
    next
      case (Inr r)
      then have "registerService es (calls @ [Route r]) = (calls', None)"
        using True Cons.prems by simp
      then obtain rs where "calls' = (calls @ [Route r]) @ map Route rs"
        "length rs = length (filter eown es)"
        using Cons.IH by blast
      then have "calls' = calls @ map Route (r # rs)
          \<and> length (r # rs) = length (filter eown (e # es))"
        using True by simp
      then show ?thesis by blast
    qed
  qed
qed

lemma ex_get_entry:
  "registerService [Entry ''GET /a'' True ex_handler] calls
     = (calls @ [ex_route ''GET'' ''/a''], None)"
  by (simp add: registerEntry_def upper_defs ex_defs)

lemma ex_truthy_id: "truthy (opt_get ex_schema ''$id'')"
  by (simp add: js_defs ex_defs)

section \<open>Route schema resolution\<close>

subsection \<open>C1: the two spellings of the root path\<close>

text \<open>
  The claim C1 as it is written fails. The key \<open>"<method> <routePath>"\<close> is tried first, and
  the fallback to \<open>"<method> /"\<close> is taken only when that lookup is falsy. So a table that has
  a fragment under \<open>"GET "\<close> gives that fragment to a route registered as \<open>""\<close>, and the
  fragment under \<open>"GET /"\<close> to a route registered as \<open>"/"\<close>.
\<close>

lemma ex_two_roots_empty:
  "fmlookup (own_props (cfg_schema
      (onRoute '''' ex_opts_two_roots (ex_config '''' JUndefined)))) ''response''
     = fmlookup (own_props ex_no_content) ''response''"
  by (simp add: onRoute_def maybeSchema_def securitySpread_def js_defs ex_defs Let_def)

lemma ex_two_roots_slash:
  "fmlookup (own_props (cfg_schema
      (onRoute '''' ex_opts_two_roots (ex_config ''/'' JUndefined)))) ''response''
     = Some ex_response"
  by (simp add: onRoute_def maybeSchema_def securitySpread_def js_defs ex_defs Let_def)

theorem root_spellings_diverge:
  "cfg_schema (onRoute '''' ex_opts_two_roots (ex_config '''' JUndefined))
     \<noteq> cfg_schema (onRoute '''' ex_opts_two_roots (ex_config ''/'' JUndefined))"
proof
  assume "cfg_schema (onRoute '''' ex_opts_two_roots (ex_config '''' JUndefined))
     = cfg_schema (onRoute '''' ex_opts_two_roots (ex_config ''/'' JUndefined))"
  then have "fmlookup (own_props ex_no_content) ''response'' = Some ex_response"
    using ex_two_roots_empty ex_two_roots_slash by simp
  then have "fmlookup (fmupd ''204'' (JObj (fmupd ''type'' (JStr ''null'') fmempty)) fmempty) ''204''
      = fmlookup (fmupd ''200'' (JObj (fmupd ''type'' (JStr ''string'') fmempty)) fmempty) ''204''"
    by (simp add: ex_defs)
  then show False by simp
qed

text \<open>
  Claim C1, amended: for every schema table that has no truthy fragment under the key
  \<open>"<method> "\<close> (the method followed by the empty path), every security map and every
  method, resolving the route schema with the registered route path \<open>""\<close> and with the
  registered route path \<open>"/"\<close> gives resolved schemas that agree on every key other than
  \<open>security\<close>: they are equal, or both are objects that are equal once \<open>security\<close> is taken
  out. When no security map is given, they are equal.
\<close>

theorem root_spellings_agree:
  assumes "\<not> truthy (rec_get (jsonSchema_fastify opts) (cfg_method config @ '' ''))"
  shows "(cfg_schema (onRoute fastify_prefix opts (config\<lparr>cfg_routePath := ''''\<rparr>))
            = cfg_schema (onRoute fastify_prefix opts (config\<lparr>cfg_routePath := ''/''\<rparr>))
          \<or> (\<exists>r r'.
                cfg_schema (onRoute fastify_prefix opts (config\<lparr>cfg_routePath := ''''\<rparr>)) = JObj r
              \<and> cfg_schema (onRoute fastify_prefix opts (config\<lparr>cfg_routePath := ''/''\<rparr>)) = JObj r'
              \<and> fmdrop ''security'' r = fmdrop ''security'' r'))
       \<and> (swaggerSecurityMap opts = None \<longrightarrow>
            cfg_schema (onRoute fastify_prefix opts (config\<lparr>cfg_routePath := ''''\<rparr>))
              = cfg_schema (onRoute fastify_prefix opts (config\<lparr>cfg_routePath := ''/''\<rparr>)))"
proof -
  have frag: "maybeSchema (jsonSchema_fastify opts) (cfg_method config) ''''
      = maybeSchema (jsonSchema_fastify opts) (cfg_method config) ''/''"
    using assms by (rule maybeSchema_root)
  have sec: "k \<noteq> ''security'' \<Longrightarrow>
      fmlookup (own_props (securitySpread (swaggerSecurityMap opts) (cfg_method config @ '' ''))) k
      = fmlookup (own_props (securitySpread (swaggerSecurityMap opts) (cfg_method config @ '' /''))) k"
    for k
    by (simp add: securitySpread_lookup)
  have none: "swaggerSecurityMap opts = None \<longrightarrow>
      cfg_schema (onRoute fastify_prefix opts (config\<lparr>cfg_routePath := ''''\<rparr>))
        = cfg_schema (onRoute fastify_prefix opts (config\<lparr>cfg_routePath := ''/''\<rparr>))"
    using frag by (simp add: onRoute_def Let_def securitySpread_None)
  show ?thesis
  proof (cases "cfg_prefix config = fastify_prefix
      \<and> truthy (maybeSchema (jsonSchema_fastify opts) (cfg_method config) ''/'')")
    case True
    then show ?thesis
      using frag none fmdrop_merge [OF sec] by (simp add: onRoute_def Let_def)
  next
    case False
    then show ?thesis
      using frag none by (auto simp: onRoute_def Let_def)
  qed
qed

text \<open>
  The amended claim at the example table. With the security map that has an entry for
  \<open>GET /\<close> the two resolved schemas are different objects, equal once \<open>security\<close> is taken
  out, and both have the response of the fragment of \<open>GET /\<close>; without a security map they
  are equal.
\<close>

theorem root_spellings_agree_witness:
  "\<not> truthy (rec_get (jsonSchema_fastify (ex_opts (Some ex_securityMap) [])) (''GET'' @ '' ''))
   \<and> (\<exists>r r'. cfg_schema (onRoute '''' (ex_opts (Some ex_securityMap) []) (ex_config '''' ex_explicit))
               = JObj r
        \<and> cfg_schema (onRoute '''' (ex_opts (Some ex_securityMap) []) (ex_config ''/'' ex_explicit))
               = JObj r'
        \<and> fmdrop ''security'' r = fmdrop ''security'' r'
        \<and> fmlookup r ''response'' = Some ex_response
        \<and> fmlookup r' ''response'' = Some ex_response)
   \<and> swaggerSecurityMap (ex_opts None []) = None
   \<and> cfg_schema (onRoute '''' (ex_opts None []) (ex_config '''' ex_explicit))
       = cfg_schema (onRoute '''' (ex_opts None []) (ex_config ''/'' ex_explicit))"
proof -
  have h: "\<not> truthy (rec_get (jsonSchema_fastify (ex_opts sm []))
      (cfg_method (ex_config ''x'' ex_explicit) @ '' ''))" for sm
    by (simp add: js_defs ex_defs)
  have c: "(ex_config ''x'' ex_explicit)\<lparr>cfg_routePath := p\<rparr> = ex_config p ex_explicit" for p
    by (simp add: ex_config_def)
  have n: "swaggerSecurityMap (ex_opts None []) = None"
    by (simp add: ex_opts_def)
  have ne: "cfg_schema (onRoute '''' (ex_opts (Some ex_securityMap) []) (ex_config '''' ex_explicit))
      \<noteq> cfg_schema (onRoute '''' (ex_opts (Some ex_securityMap) []) (ex_config ''/'' ex_explicit))"
  proof
    assume "cfg_schema (onRoute '''' (ex_opts (Some ex_securityMap) []) (ex_config '''' ex_explicit))
      = cfg_schema (onRoute '''' (ex_opts (Some ex_securityMap) []) (ex_config ''/'' ex_explicit))"
    then have "fmlookup (own_props (cfg_schema
        (onRoute '''' (ex_opts (Some ex_securityMap) []) (ex_config '''' ex_explicit)))) ''security''
      = fmlookup (own_props (cfg_schema
        (onRoute '''' (ex_opts (Some ex_securityMap) []) (ex_config ''/'' ex_explicit)))) ''security''"
      by simp
    then show False
      by (simp add: onRoute_def maybeSchema_def securitySpread_def js_defs ex_defs Let_def)
  qed
  obtain r r' where r: "cfg_schema (onRoute '''' (ex_opts (Some ex_securityMap) [])
        (ex_config '''' ex_explicit)) = JObj r"
    and r': "cfg_schema (onRoute '''' (ex_opts (Some ex_securityMap) [])
        (ex_config ''/'' ex_explicit)) = JObj r'"
    and d: "fmdrop ''security'' r = fmdrop ''security'' r'"
    using root_spellings_agree [OF h, of "''''" "Some ex_securityMap"] ne unfolding c by blast
  have "fmlookup (own_props (cfg_schema (onRoute '''' (ex_opts (Some ex_securityMap) [])
        (ex_config '''' ex_explicit)))) ''response'' = Some ex_response"
    "fmlookup (own_props (cfg_schema (onRoute '''' (ex_opts (Some ex_securityMap) [])
        (ex_config ''/'' ex_explicit)))) ''response'' = Some ex_response"
    by (simp_all add: onRoute_def maybeSchema_def securitySpread_def js_defs ex_defs Let_def)
  then have l: "fmlookup r ''response'' = Some ex_response"
    "fmlookup r' ''response'' = Some ex_response"
    unfolding r r' by simp_all
  have e: "cfg_schema (onRoute '''' (ex_opts None []) (ex_config '''' ex_explicit))
       = cfg_schema (onRoute '''' (ex_opts None []) (ex_config ''/'' ex_explicit))"
    using root_spellings_agree [OF h, of "''''" None] n unfolding c by blast
  show ?thesis
    using h [of "Some ex_securityMap"] r r' d l n e by (auto simp: ex_config_def)
qed

subsection \<open>A defect: the security map is read under the key computed before the fallback\<close>

text \<open>
  The \<open>key\<close> of line 50 is a constant. The fragment lookup of lines 53 to 58 falls back to
  \<open>"<method> /"\<close> for a route registered as \<open>""\<close>, but lines 64 to 67 still read the security
  map under \<open>"<method> "\<close>. With the ordinary configuration, a fragment and a security entry
  both under \<open>GET /\<close>, the route registered as \<open>""\<close> gets the fragment and no \<open>security\<close>, while
  the route registered as \<open>"/"\<close> gets both. The code does for the fragment what it misses for
  the security entry; the amended claim C1 above neither promises nor excludes this.
\<close>

lemma ex_root_empty_security:
  "fmlookup (own_props (cfg_schema
      (onRoute '''' (ex_opts (Some ex_securityMap) []) (ex_config '''' JUndefined)))) ''security''
     = None"
  by (simp add: onRoute_def maybeSchema_def securitySpread_def js_defs ex_defs Let_def)

lemma ex_root_slash_security:
  "fmlookup (own_props (cfg_schema
      (onRoute '''' (ex_opts (Some ex_securityMap) []) (ex_config ''/'' JUndefined)))) ''security''
     = Some ex_security"
  by (simp add: onRoute_def maybeSchema_def securitySpread_def js_defs ex_defs Let_def)

lemma ex_root_empty_response:
  "fmlookup (own_props (cfg_schema
      (onRoute '''' (ex_opts (Some ex_securityMap) []) (ex_config '''' JUndefined)))) ''response''
     = Some ex_response"
  by (simp add: onRoute_def maybeSchema_def securitySpread_def js_defs ex_defs Let_def)

theorem root_security_key_not_normalised:
  "fmlookup (own_props (cfg_schema
      (onRoute '''' (ex_opts (Some ex_securityMap) []) (ex_config '''' JUndefined)))) ''response''
     = Some ex_response
   \<and> fmlookup (own_props (cfg_schema
      (onRoute '''' (ex_opts (Some ex_securityMap) []) (ex_config '''' JUndefined)))) ''security''
     = None
   \<and> fmlookup (own_props (cfg_schema
      (onRoute '''' (ex_opts (Some ex_securityMap) []) (ex_config ''/'' JUndefined)))) ''security''
     = Some ex_security"
  using ex_root_empty_response ex_root_empty_security ex_root_slash_security by simp

subsection \<open>C4: the precedence of the merge\<close>

text \<open>
  Claim C4: for every route whose prefix matches and for which a fragment is found, the
  resolved schema is an object in which every key \<open>k\<close> has the value of the last of these
  that defines \<open>k\<close>: the route's explicit schema, then \<open>security\<close> (present exactly when the
  security map has a truthy entry for \<open>"<method> <routePath>"\<close>), then the fragment's
  \<open>request.properties\<close> spread at top level, then \<open>response\<close> (present exactly when the
  fragment has a truthy \<open>response\<close>).
\<close>

theorem onRoute_merge_precedence:
  fixes opts :: "'a opts_scheme" and config :: "'b config_scheme"
  defines "key \<equiv> cfg_method config @ '' '' @ cfg_routePath config"
  defines "frag \<equiv> maybeSchema (jsonSchema_fastify opts) (cfg_method config) (cfg_routePath config)"
  defines "props \<equiv> own_props (opt_get (opt_get frag ''request'') ''properties'')"
  defines "resp \<equiv> read_prop frag ''response''"
  defines "sec \<equiv> (case swaggerSecurityMap opts of None \<Rightarrow> JUndefined | Some sm \<Rightarrow> rec_get sm key)"
  assumes "cfg_prefix config = fastify_prefix" and "truthy frag"
  shows "\<exists>r. cfg_schema (onRoute fastify_prefix opts config) = JObj r \<and>
     (\<forall>k. fmlookup r k =
        (if k = ''response'' \<and> truthy resp then Some resp
         else if k |\<in>| fmdom props then fmlookup props k
         else if k = ''security'' \<and> truthy sec then Some sec
         else fmlookup (own_props (cfg_schema config)) k))"
proof -
  have e: "own_props (js_coalesce (js_or (cfg_schema config) (JObj fmempty)) (JObj fmempty))
      = own_props (cfg_schema config)"
    by (cases "cfg_schema config") (auto simp: js_or_def js_coalesce_def)
  have s: "fmlookup (own_props (securitySpread (swaggerSecurityMap opts) key)) k =
      (if k = ''security'' \<and> truthy sec then Some sec else None)" for k
    by (auto simp: securitySpread_def sec_def js_and_def own_props_falsy split: option.splits)
  have sd: "k |\<in>| fmdom (own_props (securitySpread (swaggerSecurityMap opts) key))
      \<longleftrightarrow> k = ''security'' \<and> truthy sec" for k
    by (auto simp: securitySpread_def sec_def js_and_def own_props_falsy split: option.splits)
  have r: "own_props (js_and resp (JObj (fmupd ''response'' resp fmempty))) =
      (if truthy resp then fmupd ''response'' resp fmempty else fmempty)"
    by (simp add: js_and_def own_props_falsy)
  show ?thesis
    using assms(6,7)
    unfolding onRoute_def Let_def frag_def[symmetric] key_def[symmetric]
      props_def[symmetric] resp_def[symmetric]
    by (simp add: e r s sd)
qed

text \<open>
  At the example: the explicit schema has \<open>summary\<close> and \<open>response\<close>; the fragment's
  \<open>response\<close> replaces the explicit one, \<open>querystring\<close> comes from the fragment's request
  properties, \<open>security\<close> from the security map, and \<open>summary\<close> stays.
\<close>

theorem onRoute_merge_precedence_witness:
  "cfg_prefix (ex_config ''/'' ex_explicit) = ''''
   \<and> truthy (maybeSchema (jsonSchema_fastify (ex_opts (Some ex_securityMap) [])) ''GET'' ''/'')
   \<and> (\<exists>r. cfg_schema (onRoute '''' (ex_opts (Some ex_securityMap) []) (ex_config ''/'' ex_explicit))
            = JObj r
        \<and> fmlookup r ''response'' = Some ex_response
        \<and> fmlookup r ''querystring'' = Some ex_querystring
        \<and> fmlookup r ''security'' = Some ex_security
        \<and> fmlookup r ''summary'' = Some (JStr ''root'')
        \<and> fmlookup r ''body'' = None)"
proof -
  have h1: "cfg_prefix (ex_config ''/'' ex_explicit) = ''''"
    by (simp add: ex_defs)
  have m: "cfg_method (ex_config ''/'' ex_explicit) = ''GET''"
    "cfg_routePath (ex_config ''/'' ex_explicit) = ''/''"
    by (simp_all add: ex_defs)
  have f: "maybeSchema (jsonSchema_fastify (ex_opts (Some ex_securityMap) [])) ''GET'' ''/''
      = ex_fragment"
    by (simp add: maybeSchema_def js_defs ex_defs)
  have h2: "truthy (maybeSchema (jsonSchema_fastify (ex_opts (Some ex_securityMap) []))
      (cfg_method (ex_config ''/'' ex_explicit)) (cfg_routePath (ex_config ''/'' ex_explicit)))"
    unfolding m f by (simp add: ex_defs)
  obtain r where r: "cfg_schema (onRoute '''' (ex_opts (Some ex_securityMap) [])
        (ex_config ''/'' ex_explicit)) = JObj r"
    and l: "\<And>k. fmlookup r k =
        (if k = ''response'' \<and> truthy (read_prop ex_fragment ''response'')
         then Some (read_prop ex_fragment ''response'')
         else if k |\<in>| fmdom (own_props (opt_get (opt_get ex_fragment ''request'') ''properties''))
         then fmlookup (own_props (opt_get (opt_get ex_fragment ''request'') ''properties'')) k
         else if k = ''security'' \<and> truthy (case swaggerSecurityMap (ex_opts (Some ex_securityMap) []) of
                 None \<Rightarrow> JUndefined | Some sm \<Rightarrow> rec_get sm (''GET'' @ '' '' @ ''/''))
         then Some (case swaggerSecurityMap (ex_opts (Some ex_securityMap) []) of
                 None \<Rightarrow> JUndefined | Some sm \<Rightarrow> rec_get sm (''GET'' @ '' '' @ ''/''))
         else fmlookup (own_props (cfg_schema (ex_config ''/'' ex_explicit))) k)"
    using onRoute_merge_precedence [OF h1 h2] unfolding m f by blast
  have "fmlookup r ''response'' = Some ex_response"
    "fmlookup r ''querystring'' = Some ex_querystring"
    "fmlookup r ''security'' = Some ex_security"
    "fmlookup r ''summary'' = Some (JStr ''root'')"
    "fmlookup r ''body'' = None"
    unfolding l by (simp_all add: js_defs ex_defs)
  then show ?thesis
    using h1 h2 r unfolding m by auto
qed

subsection \<open>C5: a route without a fragment\<close>

text \<open>
  Claim C5: for every route registered with an explicit schema (an object, hence truthy) for
  which no fragment is found in the table, also after the root-path fallbacks, the hook leaves
  the route configuration, and so its schema, as it was declared.
\<close>

theorem onRoute_no_fragment_keeps_schema:
  assumes "\<not> truthy (maybeSchema (jsonSchema_fastify opts) (cfg_method config)
              (cfg_routePath config))"
    and "truthy (cfg_schema config)"
  shows "onRoute fastify_prefix opts config = config
       \<and> cfg_schema (onRoute fastify_prefix opts config) = cfg_schema config"
  using assms by (simp add: onRoute_def Let_def js_or_def)

theorem onRoute_no_fragment_keeps_schema_witness:
  "\<not> truthy (maybeSchema (jsonSchema_fastify (ex_opts (Some ex_securityMap) [])) ''GET'' ''/users'')
   \<and> truthy ex_explicit
   \<and> cfg_schema (onRoute '''' (ex_opts (Some ex_securityMap) []) (ex_config ''/users'' ex_explicit))
       = ex_explicit"
proof -
  have h1: "\<not> truthy (maybeSchema (jsonSchema_fastify (ex_opts (Some ex_securityMap) []))
      (cfg_method (ex_config ''/users'' ex_explicit))
      (cfg_routePath (ex_config ''/users'' ex_explicit)))"
    by (simp add: maybeSchema_def js_defs ex_defs)
  have h2: "truthy (cfg_schema (ex_config ''/users'' ex_explicit))"
    by (simp add: ex_defs)
  show ?thesis
    using onRoute_no_fragment_keeps_schema [OF h1 h2, of "''''"] h1 h2
    by (simp add: ex_config_def)
qed

section \<open>Route registration\<close>

subsection \<open>C3: an unknown method token\<close>

text \<open>
  The claim C3 as it is written fails in its last part. The loop validates and registers one
  entry after the other, so when the second entry of a declaration has the unknown method
  \<open>FOO\<close>, the route of the first entry has been registered before the error is thrown.
\<close>

theorem unknown_method_after_registered_route:
  "addSchema (ex_opts None [Entry ''GET /a'' True ex_handler, Entry ''FOO /b'' True ex_handler])
     = (setupCalls ex_schema @ [ex_route ''GET'' ''/a''],
        Some (Error ''Wrong configuration for FOO /b, method [FOO] is unknown HTTP method''))"
  by (simp add: addSchema_def registerEntry_def wrongConfiguration_def js_defs upper_defs ex_defs)

text \<open>
  Claim C3, amended: when an own entry of the service declaration has a method token that,
  upper-cased, is not one of \<open>DELETE\<close>, \<open>GET\<close>, \<open>HEAD\<close>, \<open>PATCH\<close>, \<open>POST\<close>, \<open>PUT\<close>,
  \<open>OPTIONS\<close>, and the entries before it have been registered without an error, registration
  throws an error whose message names the offending key (and the token); no route is
  registered for that entry or for any entry after it, while the routes of the own entries
  before it, one for each, have been registered by then and stay.
\<close>

theorem unknown_method_aborts:
  assumes "eown e"
    and "toUpperCase (takeWhile (\<lambda>c. c \<noteq> CHR '' '') (ekey e)) \<notin> httpMethods"
    and "registerService pre calls = (calls', None)"
  shows "registerService (pre @ e # post) calls
           = (calls', Some (Error (wrongConfiguration (ekey e)
                 (takeWhile (\<lambda>c. c \<noteq> CHR '' '') (ekey e)))))
       \<and> sublist (ekey e)
           (wrongConfiguration (ekey e) (takeWhile (\<lambda>c. c \<noteq> CHR '' '') (ekey e)))
       \<and> (\<exists>rs. calls' = calls @ map Route rs \<and> length rs = length (filter eown pre))"
proof -
  have "registerService (pre @ e # post) calls = registerService (e # post) calls'"
    using assms(3) by (simp add: registerService_append)
  moreover have "registerService (e # post) calls'
      = (calls', Some (Error (wrongConfiguration (ekey e)
            (takeWhile (\<lambda>c. c \<noteq> CHR '' '') (ekey e)))))"
    using assms(1,2) by (simp add: registerEntry_unknown)
  moreover have "sublist (ekey e)
      (wrongConfiguration (ekey e) (takeWhile (\<lambda>c. c \<noteq> CHR '' '') (ekey e)))"
    unfolding wrongConfiguration_def by (metis sublist_appendI)
  ultimately show ?thesis
    using registerService_ok_calls [OF assms(3)] by simp
qed

theorem unknown_method_aborts_witness:
  "toUpperCase (takeWhile (\<lambda>c. c \<noteq> CHR '' '') ''foo /b'') \<notin> httpMethods
   \<and> registerService [Entry ''GET /a'' True ex_handler] [] = ([ex_route ''GET'' ''/a''], None)
   \<and> registerService
        ([Entry ''GET /a'' True ex_handler] @ Entry ''foo /b'' True ex_handler
           # [Entry ''GET /c'' True ex_handler]) []
       = ([ex_route ''GET'' ''/a''],
          Some (Error ''Wrong configuration for foo /b, method [foo] is unknown HTTP method''))"
proof -
  have h1: "eown (Entry ''foo /b'' True ex_handler)"
    by simp
  have h2: "toUpperCase (takeWhile (\<lambda>c. c \<noteq> CHR '' '') (ekey (Entry ''foo /b'' True ex_handler)))
      \<notin> httpMethods"
    by (simp add: upper_defs)
  have h3: "registerService [Entry ''GET /a'' True ex_handler] [] = ([ex_route ''GET'' ''/a''], None)"
    using ex_get_entry [of "[]"] by simp
  show ?thesis
    using unknown_method_aborts [OF h1 h2 h3, of "[Entry ''GET /c'' True ex_handler]"] h2 h3
    by (simp add: wrongConfiguration_def)
qed

subsection \<open>C7: the key is split at its first space\<close>

text \<open>
  Claim C7: for every own entry of the service declaration that is registered (a known
  method, a function or an object as value, the entries before it registered without an
  error), the loop calls \<open>fastify.route\<close> next with route options whose method is (the
  upper-cased form of) the part of the key before its first space and whose url is what
  follows the first space, further spaces included: a key \<open>m @ " " @ rest\<close> with no space in
  \<open>m\<close> is registered under the url \<open>rest\<close>.
\<close>

theorem registered_url_is_key_tail:
  assumes "eown e"
    and "toUpperCase (takeWhile (\<lambda>c. c \<noteq> CHR '' '') (ekey e)) \<in> httpMethods"
    and "typeof (evalue e) = TFunction \<or> (typeof (evalue e) = TObject \<and> evalue e \<noteq> JNull)"
    and "registerService pre calls = (calls', None)"
  shows "\<exists>routeOptions.
           registerEntry (ekey e) (evalue e) = Inr routeOptions
         \<and> registerService (pre @ e # post) calls
             = registerService post (calls' @ [Route routeOptions])
         \<and> prefix (calls' @ [Route routeOptions]) (fst (registerService (pre @ e # post) calls))
         \<and> fmlookup routeOptions ''method''
             = Some (JStr (toUpperCase (takeWhile (\<lambda>c. c \<noteq> CHR '' '') (ekey e))))
         \<and> fmlookup routeOptions ''url''
             = Some (JStr (drop 1 (dropWhile (\<lambda>c. c \<noteq> CHR '' '') (ekey e))))
         \<and> (\<forall>m rest. CHR '' '' \<notin> set m \<and> ekey e = m @ '' '' @ rest \<longrightarrow>
               fmlookup routeOptions ''method'' = Some (JStr (toUpperCase m))
             \<and> fmlookup routeOptions ''url'' = Some (JStr rest))"
proof -
  have "\<not> nullish (evalue e)" if "typeof (evalue e) = TObject" "evalue e \<noteq> JNull"
    using that by (cases "evalue e") auto
  then obtain ro where ro: "registerEntry (ekey e) (evalue e) = Inr ro"
    and m: "fmlookup ro ''method''
        = Some (JStr (toUpperCase (takeWhile (\<lambda>c. c \<noteq> CHR '' '') (ekey e))))"
    and u: "fmlookup ro ''url''
        = Some (JStr (drop 1 (dropWhile (\<lambda>c. c \<noteq> CHR '' '') (ekey e))))"
    using assms(3) registerEntry_known [OF assms(2), of "evalue e"]
    by (auto simp: get_prop_def)
  have s: "registerService (pre @ e # post) calls = registerService post (calls' @ [Route ro])"
    using assms(1,4) ro by (simp add: registerService_append)
  have p: "prefix (calls' @ [Route ro]) (fst (registerService (pre @ e # post) calls))"
    unfolding s by (rule registerService_prefix)
  have "\<forall>m rest. CHR '' '' \<notin> set m \<and> ekey e = m @ '' '' @ rest \<longrightarrow>
               fmlookup ro ''method'' = Some (JStr (toUpperCase m))
             \<and> fmlookup ro ''url'' = Some (JStr rest)"
    using m u key_parts by metis
  then show ?thesis
    using ro s p m u by blast
qed

text \<open>
  At the declaration with the keys \<open>GET /a\<close> and \<open>get /a b  c\<close>, the second with a space and a
  double space in its path: \<open>addSchema\<close> registers the second route, after the first, under
  the method \<open>GET\<close> and the url \<open>/a b  c\<close>.
\<close>

theorem registered_url_is_key_tail_witness:
  "toUpperCase (takeWhile (\<lambda>c. c \<noteq> CHR '' '') ''get /a b  c'') \<in> httpMethods
   \<and> typeof ex_handler = TFunction
   \<and> CHR '' '' \<notin> set ''get''
   \<and> ''get /a b  c'' = ''get'' @ '' '' @ ''/a b  c''
   \<and> addSchema (ex_opts None [Entry ''GET /a'' True ex_handler, Entry ''get /a b  c'' True ex_handler])
       = (setupCalls ex_schema @ [ex_route ''GET'' ''/a'', ex_route ''GET'' ''/a b  c''], None)"
proof -
  have h1: "eown (Entry ''get /a b  c'' True ex_handler)"
    by simp
  have h2: "toUpperCase (takeWhile (\<lambda>c. c \<noteq> CHR '' '') (ekey (Entry ''get /a b  c'' True ex_handler)))
      \<in> httpMethods"
    by (simp add: upper_defs)
  have h3: "typeof (evalue (Entry ''get /a b  c'' True ex_handler)) = TFunction
      \<or> (typeof (evalue (Entry ''get /a b  c'' True ex_handler)) = TObject
          \<and> evalue (Entry ''get /a b  c'' True ex_handler) \<noteq> JNull)"
    by (simp add: ex_handler_def)
  have h4: "registerService [Entry ''GET /a'' True ex_handler] (setupCalls ex_schema)
      = (setupCalls ex_schema @ [ex_route ''GET'' ''/a''], None)"
    by (rule ex_get_entry)
  obtain ro where s: "registerService
        ([Entry ''GET /a'' True ex_handler] @ Entry ''get /a b  c'' True ex_handler # [])
        (setupCalls ex_schema)
      = registerService [] ((setupCalls ex_schema @ [ex_route ''GET'' ''/a'']) @ [Route ro])"
    and r: "registerEntry ''get /a b  c'' ex_handler = Inr ro"
    using registered_url_is_key_tail [OF h1 h2 h3 h4, of "[]"] by auto
  have "ro = fmupd ''url'' (JStr ''/a b  c'')
           (fmupd ''handler'' ex_handler (fmupd ''method'' (JStr ''GET'') fmempty))"
    using r by (simp add: registerEntry_def upper_defs ex_handler_def)
  then have "registerService [Entry ''GET /a'' True ex_handler, Entry ''get /a b  c'' True ex_handler]
        (setupCalls ex_schema)
      = (setupCalls ex_schema @ [ex_route ''GET'' ''/a'', ex_route ''GET'' ''/a b  c''], None)"
    using s by (simp add: ex_route_def)
  then have "addSchema (ex_opts None [Entry ''GET /a'' True ex_handler, Entry ''get /a b  c'' True ex_handler])
       = (setupCalls ex_schema @ [ex_route ''GET'' ''/a'', ex_route ''GET'' ''/a b  c''], None)"
    using ex_truthy_id by (simp add: addSchema_def ex_opts_def del: registerService.simps)
  then show ?thesis
    using h2 h3 by (simp add: ex_handler_def)
qed

subsection \<open>C10: a \<open>null\<close> entry\<close>

text \<open>
  The claim C10 as it is written fails in its last part. A \<open>null\<close> entry under a known method
  takes the \<open>object\<close> branch, where \<open>handler.handler\<close> is read while the argument of
  \<open>fastify.route\<close> is built: on \<open>null\<close> that read throws a \<open>TypeError\<close>, so \<open>fastify.route\<close> is
  not called and no route with an undefined handler is registered.
\<close>

theorem null_entry_throws_TypeError:
  "addSchema (ex_opts None [Entry ''GET /x'' True JNull]) = (setupCalls ex_schema, Some TypeError)"
  by (simp add: addSchema_def registerEntry_def js_defs upper_defs ex_defs)

text \<open>
  Claim C10, amended: for every entry whose value is \<open>null\<close>, the \<open>Unknown handler\<close> error is
  not raised: that error is raised only for values whose \<open>typeof\<close> is neither \<open>object\<close> (which
  \<open>null\<close> has) nor \<open>function\<close>. Under a known method a \<open>null\<close> entry takes the \<open>object\<close> branch,
  where reading \<open>handler.handler\<close> throws a \<open>TypeError\<close>; no route is registered for it.
\<close>

theorem null_entry_not_unknown_handler:
  "registerEntry path JNull \<noteq> Inl (Error ''Unknown handler'')
   \<and> (toUpperCase (takeWhile (\<lambda>c. c \<noteq> CHR '' '') path) \<in> httpMethods
        \<longrightarrow> registerEntry path JNull = Inl TypeError)
   \<and> (\<forall>routeOptions. registerEntry path JNull \<noteq> Inr routeOptions)
   \<and> (registerEntry path handler = Inl (Error ''Unknown handler'')
        \<longrightarrow> typeof handler \<noteq> TObject \<and> typeof handler \<noteq> TFunction)"
proof (cases "toUpperCase (takeWhile (\<lambda>c. c \<noteq> CHR '' '') path) \<in> httpMethods")
  case True
  have "registerEntry path JNull = Inl TypeError"
    using registerEntry_known [OF True, of JNull] by (simp add: get_prop_def)
  moreover have "registerEntry path handler = Inl (Error ''Unknown handler'')
      \<Longrightarrow> typeof handler \<noteq> TObject \<and> typeof handler \<noteq> TFunction"
    using registerEntry_known [OF True, of handler]
    by (auto simp: get_prop_def split: jstype.splits if_splits)
  ultimately show ?thesis using True by simp
next
  case False
  have "registerEntry path h \<noteq> Inl (Error ''Unknown handler'')
      \<and> registerEntry path h \<noteq> Inr r" for h r
    using registerEntry_unknown [OF False, of h] by (simp add: wrongConfiguration_def)
  then show ?thesis using False by simp
qed

theorem null_entry_not_unknown_handler_witness:
  "toUpperCase (takeWhile (\<lambda>c. c \<noteq> CHR '' '') ''GET /x'') \<in> httpMethods
   \<and> registerEntry ''GET /x'' JNull = Inl TypeError
   \<and> registerEntry ''GET /x'' (JNum 5) = Inl (Error ''Unknown handler'')
   \<and> typeof (JNum 5) \<noteq> TObject \<and> typeof (JNum 5) \<noteq> TFunction"
proof -
  have h1: "toUpperCase (takeWhile (\<lambda>c. c \<noteq> CHR '' '') ''GET /x'') \<in> httpMethods"
    by (simp add: upper_defs)
  have h2: "registerEntry ''GET /x'' (JNum 5) = Inl (Error ''Unknown handler'')"
    by (simp add: registerEntry_def upper_defs)
  show ?thesis
    using null_entry_not_unknown_handler [of "''GET /x''" "JNum 5"] h1 h2 by simp
qed

subsection \<open>C9: a schema without \<open>$id\<close>\<close>

text \<open>
  The claim C9 as it is written fails in one part: the message of the error thrown for a
  missing \<open>$id\<close> is a fixed text and names no route key. Here the declaration has the one
  key \<open>GET /\<close>, which does not occur in the message.
\<close>

theorem missing_id_message_names_no_key:
  "addSchema ((ex_opts None [Entry ''GET /'' True ex_handler])\<lparr>jsonSchema_schema := JObj fmempty\<rparr>)
     = ([], Some (Error
          ''Schema was ignored, $id is missing; Typed fastify schema was not registered...''))
   \<and> \<not> sublist ''GET /''
          ''Schema was ignored, $id is missing; Typed fastify schema was not registered...''"
  by (simp add: addSchema_def js_defs ex_defs sublist_code)

text \<open>
  Claim C9, amended: if the supplied JSON schema has no truthy \<open>$id\<close> (none, or an empty or
  otherwise falsy one), \<open>addSchema\<close> throws an error with the fixed message
  \<open>Schema was ignored, $id is missing; Typed fastify schema was not registered...\<close>, whatever
  the service declaration is, before any hook, decoration or route is registered. If \<open>$id\<close>
  is truthy, the schema is added to the server first, then the decorators and hooks are
  registered and the service loop runs.
\<close>

theorem missing_id_aborts_first:
  "(\<not> truthy (opt_get (jsonSchema_schema opts) ''$id'') \<longrightarrow>
      addSchema opts = ([], Some (Error
        ''Schema was ignored, $id is missing; Typed fastify schema was not registered...'')))
   \<and> (truthy (opt_get (jsonSchema_schema opts) ''$id'') \<longrightarrow>
        addSchema opts = registerService (service opts) (setupCalls (jsonSchema_schema opts))
      \<and> prefix (AddSchema (jsonSchema_schema opts) # tl (setupCalls (jsonSchema_schema opts)))
          (fst (addSchema opts)))"
proof -
  have "prefix (setupCalls (jsonSchema_schema opts))
      (fst (registerService (service opts) (setupCalls (jsonSchema_schema opts))))"
    by (rule registerService_prefix)
  moreover have "AddSchema (jsonSchema_schema opts) # tl (setupCalls (jsonSchema_schema opts))
      = setupCalls (jsonSchema_schema opts)"
    by (simp add: setupCalls_def)
  ultimately show ?thesis
    by (simp add: addSchema_def Let_def)
qed

theorem missing_id_aborts_first_witness:
  "\<not> truthy (opt_get (JObj (fmupd ''$id'' (JStr '''') fmempty)) ''$id'')
   \<and> addSchema ((ex_opts None [Entry ''GET /'' True ex_handler])
        \<lparr>jsonSchema_schema := JObj (fmupd ''$id'' (JStr '''') fmempty)\<rparr>)
       = ([], Some (Error
           ''Schema was ignored, $id is missing; Typed fastify schema was not registered...''))
   \<and> truthy (opt_get ex_schema ''$id'')
   \<and> addSchema (ex_opts None [Entry ''GET /a'' True ex_handler])
       = (setupCalls ex_schema @ [ex_route ''GET'' ''/a''], None)"
proof -
  have h1: "\<not> truthy (opt_get (JObj (fmupd ''$id'' (JStr '''') fmempty)) ''$id'')"
    by (simp add: js_defs)
  have s1: "jsonSchema_schema ((ex_opts None [Entry ''GET /'' True ex_handler])
        \<lparr>jsonSchema_schema := JObj (fmupd ''$id'' (JStr '''') fmempty)\<rparr>)
      = JObj (fmupd ''$id'' (JStr '''') fmempty)"
    by simp
  have s2: "jsonSchema_schema (ex_opts None [Entry ''GET /a'' True ex_handler]) = ex_schema"
    "service (ex_opts None [Entry ''GET /a'' True ex_handler]) = [Entry ''GET /a'' True ex_handler]"
    by (simp_all add: ex_opts_def)
  have g: "registerService [Entry ''GET /a'' True ex_handler] (setupCalls ex_schema)
      = (setupCalls ex_schema @ [ex_route ''GET'' ''/a''], None)"
    by (rule ex_get_entry)
  show ?thesis
    using missing_id_aborts_first [of "(ex_opts None [Entry ''GET /'' True ex_handler])
        \<lparr>jsonSchema_schema := JObj (fmupd ''$id'' (JStr '''') fmempty)\<rparr>"]
      missing_id_aborts_first [of "ex_opts None [Entry ''GET /a'' True ex_handler]"]
      h1 ex_truthy_id
    unfolding s1 s2 g by simp
qed

section \<open>The request hook and the reply decorators\<close>

subsection \<open>C8: \<open>operationPath\<close>\<close>

text \<open>
  Claim C8: the hook registered under \<open>onRequest\<close> (the hooks of that name run before the
  handler) sets \<open>operationPath\<close> to \<open>"<method> <routerPath>"\<close>, from the method and the route
  template of the request, whatever the literal URL is; it changes nothing else and ends by
  calling \<open>done()\<close> without an error. The hook is registered by every \<open>addSchema\<close> that gets
  past the \<open>$id\<close> check.
\<close>

theorem onRequest_sets_operationPath:
  "(\<exists>req'. onRequest req = Inr req'
      \<and> operationPath req' = JStr (req_method req @ '' '' @ req_routerPath req)
      \<and> req_method req' = req_method req
      \<and> req_routerPath req' = req_routerPath req
      \<and> req_url req' = req_url req
      \<and> (\<forall>url. \<exists>req''. onRequest (req\<lparr>req_url := url\<rparr>) = Inr req''
            \<and> operationPath req'' = operationPath req'))
   \<and> (truthy (opt_get (jsonSchema_schema opts) ''$id'') \<longrightarrow>
        AddHook ''onRequest'' \<in> set (fst (addSchema opts))
      \<and> DecorateRequest ''operationPath'' JNull \<in> set (fst (addSchema opts)))"
proof -
  have "set (setupCalls (jsonSchema_schema opts))
      \<subseteq> set (fst (registerService (service opts) (setupCalls (jsonSchema_schema opts))))"
    using registerService_prefix set_mono_prefix by blast
  then have "truthy (opt_get (jsonSchema_schema opts) ''$id'') \<longrightarrow>
        AddHook ''onRequest'' \<in> set (fst (addSchema opts))
      \<and> DecorateRequest ''operationPath'' JNull \<in> set (fst (addSchema opts))"
    by (auto simp: addSchema_def Let_def setupCalls_def)
  then show ?thesis
    by (simp add: onRequest_def)
qed

theorem onRequest_sets_operationPath_witness:
  "truthy (opt_get ex_schema ''$id'')
   \<and> AddHook ''onRequest'' \<in> set (fst (addSchema (ex_opts None [])))
   \<and> onRequest ex_request = Inr (ex_request\<lparr>operationPath := JStr ''GET /users/:id''\<rparr>)"
proof -
  have s: "jsonSchema_schema (ex_opts None []) = ex_schema"
    by (simp add: ex_opts_def)
  have r: "onRequest ex_request = Inr (ex_request\<lparr>operationPath := JStr ''GET /users/:id''\<rparr>)"
    by (simp add: onRequest_def ex_request_def)
  show ?thesis
    using onRequest_sets_operationPath [of ex_request "ex_opts None []"] ex_truthy_id r
    unfolding s by simp
qed

subsection \<open>C6: \<open>matches\<close>\<close>

text \<open>
  Claim C6: for every request and every label, \<open>matches(label)\<close> is true if and only if the
  label is \<open>"<request method> <request routerPath>"\<close>. The decorator is a comparison of two
  strings: it has a result for every label (for the label of another route, false), and it
  assigns nothing, so its result is the same however often it is called.
\<close>

theorem matches_iff_label:
  "matches this label
     \<longleftrightarrow> label = req_method (reply_request this) @ '' '' @ req_routerPath (reply_request this)"
  by (auto simp: matches_def)

end
